theory Spec2Isabelle
  imports Main
begin

section \<open>Python values, objects and the store\<close>

text \<open>
  A Python value is an immutable atom (None, a bool, an int, a str, a class object) or a
  reference to a mutable container on the heap.  The configuration dict of the workflow
  and everything nested in it are heap objects, so that two names for the same dict
  (the caller's \<open>config\<close> and an attribute of the workflow) are the same address.
\<close>

type_synonym addr = nat

datatype pyval =
    VNone
  | VBool bool
  | VInt int
  | VStr string
  | VClass string
  | VRef addr

datatype pyobj =
    ODict "(string \<times> pyval) list"
  | OList "pyval list"

type_synonym heap = "pyobj list"

type_synonym pydict = "(string \<times> pyval) list"

datatype error =
    AttributeError
  | TypeError
  | EngineError string

section \<open>Nodes and the graph description\<close>

text \<open>
  The node classes and \<open>BaseGraph\<close> are declared elsewhere in the package; a node is
  recorded with the keyword arguments its constructor is given in \<open>_create_graph\<close>, and the
  graph with the keyword arguments of \<open>BaseGraph(...)\<close>.
\<close>

datatype node_class = GraphIteratorNode | MergeGeneratedScriptsNode

record node =
  node_class :: node_class
  node_input :: string
  node_output :: "string list"
  node_config :: pydict
  node_schema :: "pyval option"

record base_graph =
  nodes :: "node list"
  edges :: "(node \<times> node) list"
  entry_point :: node
  graph_name :: string

type_synonym exec_info = "pydict list"

text \<open>
  The graph execution engine (\<open>BaseGraph.execute\<close>) is a collaborator: it takes the store,
  the graph description and the initial input mapping, and either raises or returns the
  final state mapping with the execution metadata.
\<close>

type_synonym engine = "heap \<Rightarrow> base_graph \<Rightarrow> pydict \<Rightarrow> error + (heap \<times> pydict \<times> exec_info)"

section \<open>The workflow object\<close>

text \<open>
  An instance of \<open>ScriptCreatorMultiGraph\<close>: every attribute the class reads or writes,
  \<open>None\<close> while the attribute has not been assigned (reading it then raises
  \<open>AttributeError\<close>).
\<close>

record workflow =
  prompt :: "pyval option"
  source :: "pyval option"
  config :: "pyval option"
  schema :: "pyval option"
  llm_model :: "pyval option"
  graph :: "base_graph option"
  final_state :: "pydict option"
  execution_info :: "exec_info option"
  copy_config :: "pyval option"
  copy_schema :: "pyval option"

definition getattr :: "'a option \<Rightarrow> error + 'a" where
  "getattr x = (case x of None \<Rightarrow> Inl AttributeError | Some v \<Rightarrow> Inr v)"

definition ScriptCreatorGraph :: pyval where
  "ScriptCreatorGraph = VClass ''ScriptCreatorGraph''"

subsection \<open>\<open>_create_graph\<close>\<close>

definition graph_iterator_node :: "pyval \<Rightarrow> pyval \<Rightarrow> node" where
  "graph_iterator_node cc cs =
     \<lparr> node_class = GraphIteratorNode,
       node_input = ''user_prompt & urls'',
       node_output = [''scripts''],
       node_config = [(''graph_instance'', ScriptCreatorGraph), (''scraper_config'', cc)],
       node_schema = Some cs \<rparr>"

definition merge_scripts_node :: "pyval \<Rightarrow> pyval \<Rightarrow> node" where
  "merge_scripts_node lm sc =
     \<lparr> node_class = MergeGeneratedScriptsNode,
       node_input = ''user_prompt & scripts'',
       node_output = [''merged_script''],
       node_config = [(''llm_model'', lm), (''schema'', sc)],
       node_schema = None \<rparr>"

text \<open>
  \<open>graph_name\<close> is \<open>self.__class__.__name__\<close>, the name of this class for its direct
  instances.
\<close>

definition create_graph :: "workflow \<Rightarrow> error + base_graph" where
  "create_graph self =
     (case getattr (copy_config self) of Inl e \<Rightarrow> Inl e | Inr cc \<Rightarrow>
      case getattr (copy_schema self) of Inl e \<Rightarrow> Inl e | Inr cs \<Rightarrow>
      case getattr (llm_model self) of Inl e \<Rightarrow> Inl e | Inr lm \<Rightarrow>
      case getattr (schema self) of Inl e \<Rightarrow> Inl e | Inr sc \<Rightarrow>
        Inr \<lparr> nodes = [graph_iterator_node cc cs, merge_scripts_node lm sc],
              edges = [(graph_iterator_node cc cs, merge_scripts_node lm sc)],
              entry_point = graph_iterator_node cc cs,
              graph_name = ''ScriptCreatorMultiGraph'' \<rparr>)"

subsection \<open>\<open>run\<close>\<close>

definition sentinel :: string where
  "sentinel = ''Failed to generate the script.''"

definition dict_get :: "pydict \<Rightarrow> string \<Rightarrow> pyval \<Rightarrow> pyval" where
  "dict_get d k dflt = (case map_of d k of None \<Rightarrow> dflt | Some v \<Rightarrow> v)"

definition run_inputs :: "pyval \<Rightarrow> pyval \<Rightarrow> pydict" where
  "run_inputs p s = [(''user_prompt'', p), (''urls'', s)]"

definition run :: "engine \<Rightarrow> heap \<Rightarrow> workflow \<Rightarrow> error + (heap \<times> workflow \<times> pyval)" where
  "run execute h self =
     (case getattr (prompt self) of Inl e \<Rightarrow> Inl e | Inr p \<Rightarrow>
      case getattr (source self) of Inl e \<Rightarrow> Inl e | Inr s \<Rightarrow>
      case getattr (graph self) of Inl e \<Rightarrow> Inl e | Inr g \<Rightarrow>
      case execute h g (run_inputs p s) of Inl e \<Rightarrow> Inl e
      | Inr (h', fs, info) \<Rightarrow>
          Inr (h', self\<lparr>final_state := Some fs, execution_info := Some info\<rparr>,
               dict_get fs ''merged_script'' (VStr sentinel)))"

definition predecessors :: "base_graph \<Rightarrow> node \<Rightarrow> node list" where
  "predecessors g n = map fst (filter (\<lambda>e. snd e = n) (edges g))"

text \<open>
  \<open>def run(self)\<close> declares no parameter besides the instance: a call that passes
  positional arguments raises \<open>TypeError\<close> before the body runs.
\<close>

definition call_run ::
    "engine \<Rightarrow> heap \<Rightarrow> workflow \<Rightarrow> pyval list \<Rightarrow> error + (heap \<times> workflow \<times> pyval)" where
  "call_run execute h self args = (if args = [] then run execute h self else Inl TypeError)"

text \<open>
  The reading of the specification's orchestrator contract in which the pipeline is built
  inside every call: \<open>run\<close> on a pipeline that \<open>_create_graph\<close> has just made.
\<close>

definition run_fresh :: "engine \<Rightarrow> heap \<Rightarrow> workflow \<Rightarrow> error + (heap \<times> workflow \<times> pyval)" where
  "run_fresh execute h self =
     (case create_graph self of Inl e \<Rightarrow> Inl e
      | Inr g \<Rightarrow> run execute h (self\<lparr>graph := Some g\<rparr>))"

section \<open>Copying and the constructor\<close>

fun children :: "pyobj \<Rightarrow> pyval list" where
  "children (ODict kvs) = map snd kvs"
| "children (OList vs) = vs"

fun wf_val :: "nat \<Rightarrow> pyval \<Rightarrow> bool" where
  "wf_val n (VRef a) = (a < n)"
| "wf_val n v = True"

text \<open>A store is well formed when no object holds a dangling reference.\<close>

definition wf_heap :: "heap \<Rightarrow> bool" where
  "wf_heap h = list_all (\<lambda>ob. list_all (wf_val (length h)) (children ob)) h"

fun shift_val :: "nat \<Rightarrow> pyval \<Rightarrow> pyval" where
  "shift_val k (VRef a) = VRef (a + k)"
| "shift_val k v = v"

fun shift_obj :: "nat \<Rightarrow> pyobj \<Rightarrow> pyobj" where
  "shift_obj k (ODict kvs) = ODict (map (\<lambda>kv. (fst kv, shift_val k (snd kv))) kvs)"
| "shift_obj k (OList vs) = OList (map (shift_val k) vs)"

text \<open>
  \<open>copy.deepcopy\<close> returns an atom (None, a number, a string, a class) as it is.  For a
  container it builds a copy of the object graph below it out of new objects, with the
  same sharing and the same cycles (its memo).  The model relocates the store: every
  object gets a copy at its address plus the size of the store, with the references
  inside it moved likewise.  The copies of objects that the argument does not reach are
  referred to by nothing.
\<close>

fun deepcopy :: "heap \<Rightarrow> pyval \<Rightarrow> heap \<times> pyval" where
  "deepcopy h (VRef a) = (h @ map (shift_obj (length h)) h, VRef (a + length h))"
| "deepcopy h v = (h, v)"

text \<open>
  Modelled from the spec: \<open>safe_deepcopy\<close> of \<open>utils/copy.py\<close> is not part of the
  sources at hand.  The specification asks of it that the configuration is "copied
  defensively at construction time", giving "a structurally independent copy, not a
  shared reference": a deep copy.
\<close>

definition safe_deepcopy :: "heap \<Rightarrow> pyval \<Rightarrow> heap \<times> pyval" where
  "safe_deepcopy h v = deepcopy h v"

text \<open>
  The initialiser of the base class \<open>AbstractGraph\<close> is a collaborator: it is given the
  store, the instance and the arguments \<open>(prompt, config, source, schema)\<close>.
\<close>

type_synonym base_init =
  "heap \<Rightarrow> workflow \<Rightarrow> pyval \<Rightarrow> pyval \<Rightarrow> pyval \<Rightarrow> pyval \<Rightarrow> error + (heap \<times> workflow)"

definition blank :: workflow where
  "blank = \<lparr> prompt = None, source = None, config = None, schema = None, llm_model = None,
             graph = None, final_state = None, execution_info = None,
             copy_config = None, copy_schema = None \<rparr>"

text \<open>The first two statements of \<open>__init__\<close>: the two snapshots.\<close>

definition snapshots :: "heap \<Rightarrow> workflow \<Rightarrow> pyval \<Rightarrow> pyval \<Rightarrow> heap \<times> workflow" where
  "snapshots h self cfg sch =
     (case safe_deepcopy h cfg of (h1, cc) \<Rightarrow>
      case deepcopy h1 sch of (h2, cs) \<Rightarrow>
        (h2, self\<lparr>copy_config := Some cc, copy_schema := Some cs\<rparr>))"

definition init ::
    "base_init \<Rightarrow> heap \<Rightarrow> pyval \<Rightarrow> pyval \<Rightarrow> pyval \<Rightarrow> pyval \<Rightarrow> error + (heap \<times> workflow)" where
  "init super_init h p src cfg sch =
     (case snapshots h blank cfg sch of (h2, self) \<Rightarrow> super_init h2 self p cfg src sch)"

subsection \<open>What a value looks like in a store\<close>

datatype pytree =
    TAtom pyval
  | TDict "(string \<times> pytree) list"
  | TList "pytree list"
  | TCut

text \<open>
  The structure below a value, read from the store down to a depth: what a reader of the
  value observes.  Two values look the same when their unfoldings agree at every depth.
\<close>

fun unfold :: "nat \<Rightarrow> heap \<Rightarrow> pyval \<Rightarrow> pytree" where
  "unfold 0 h (VRef a) = TCut"
| "unfold (Suc n) h (VRef a) =
     (if a < length h then
        (case h ! a of
           ODict kvs \<Rightarrow> TDict (map (\<lambda>kv. (fst kv, unfold n h (snd kv))) kvs)
         | OList vs \<Rightarrow> TList (map (unfold n h) vs))
      else TCut)"
| "unfold n h v = TAtom v"

subsection \<open>Mutation by the caller\<close>

text \<open>The objects that can be reached from a set of known addresses.\<close>

inductive_set reach :: "heap \<Rightarrow> addr set \<Rightarrow> addr set" for h :: heap and K :: "addr set" where
  reach_known: "a \<in> K \<Longrightarrow> a \<in> reach h K"
| reach_child: "a \<in> reach h K \<Longrightarrow> a < length h \<Longrightarrow> VRef b \<in> set (children (h ! a)) \<Longrightarrow>
     b \<in> reach h K"

text \<open>
  What the holder of the references \<open>K\<close> can do to a store \<open>h\<close>.  The objects it owns
  are those it can reach from \<open>K\<close> and those created since it started.  It can replace
  the content of an object it owns (assign or delete a key, append, clear) by atoms and
  references it owns, and it can create an object with such content.
\<close>

inductive mutate :: "addr set \<Rightarrow> heap \<Rightarrow> heap \<Rightarrow> bool" for K :: "addr set" and h :: heap where
  mutate_none: "mutate K h h"
| mutate_store: "mutate K h h1 \<Longrightarrow> a < length h1 \<Longrightarrow>
     a \<in> reach h1 K \<or> length h \<le> a \<Longrightarrow>
     \<forall>b. VRef b \<in> set (children ob) \<longrightarrow> b \<in> reach h1 K \<or> length h \<le> b \<Longrightarrow>
     mutate K h (h1[a := ob])"
| mutate_alloc: "mutate K h h1 \<Longrightarrow>
     \<forall>b. VRef b \<in> set (children new) \<longrightarrow> b \<in> reach h1 K \<or> length h \<le> b \<Longrightarrow>
     mutate K h (h1 @ [new])"

fun refs :: "pyval \<Rightarrow> addr set" where
  "refs (VRef a) = {a}"
| "refs v = {}"

text \<open>
  What is asked of the initialiser of the base class: it does not reassign the attribute
  \<open>copy_config\<close>, and what it does to the store is a mutation through the configuration
  it is given.
\<close>

definition base_init_frame :: "base_init \<Rightarrow> bool" where
  "base_init_frame super_init \<longleftrightarrow>
     (\<forall>h self p cfg src sch h' self'.
        super_init h self p cfg src sch = Inr (h', self') \<longrightarrow>
          copy_config self' = copy_config self \<and> mutate (refs cfg) h h')"

text \<open>
  The invariant behind the independence of the snapshot.  In a store \<open>hx\<close> that comes
  from a store \<open>h\<close> of size \<open>lo\<close> by taking the snapshot of a container, the cells from
  \<open>lo\<close> up to \<open>2 * lo\<close> are the relocated cells of \<open>h\<close>, and no object outside them
  refers to one of them.
\<close>

definition sealed :: "nat \<Rightarrow> heap \<Rightarrow> heap \<Rightarrow> bool" where
  "sealed lo h hx \<longleftrightarrow>
     2 * lo \<le> length hx \<and>
     (\<forall>a<lo. hx ! (a + lo) = shift_obj lo (h ! a)) \<and>
     (\<forall>a<length hx. a < lo \<or> 2 * lo \<le> a \<longrightarrow>
        (\<forall>b. VRef b \<in> set (children (hx ! a)) \<longrightarrow> b < lo \<or> 2 * lo \<le> b))"

section \<open>The stages and the engine, after the specification\<close>

text \<open>
  Modelled from the spec: the sub-pipeline factory and the LLM merge invocation are
  collaborators.  The specification has the first "accept {prompt, url, configuration,
  schema} and return a text artifact", and the second "accept {prompt, list of artifacts,
  schema} and return a text artifact or fail"; a sub-invocation can fail too.  The policy
  on a failing sub-invocation (abort all, or skip and continue) is left open there.
\<close>

datatype failure_policy = AbortAll | SkipAndContinue

type_synonym sub_pipeline = "pyval \<Rightarrow> pyval option \<Rightarrow> string \<Rightarrow> string \<Rightarrow> string option"

type_synonym llm_merge = "pyval \<Rightarrow> string \<Rightarrow> string list \<Rightarrow> string option"

text \<open>
  Modelled from the spec: the fan-out of the iterator stage (\<open>GraphIteratorNode\<close> is not
  part of the sources at hand).  "For each URL, invokes a fresh instance of the designated
  sub-pipeline with {prompt, url} as input, producing one artifact.  Returns the ordered
  sequence of produced artifacts (length == number of input URLs, unless a sub-invocation
  fails)"; the URLs that failed are returned beside them.
\<close>

fun fan_out :: "(string \<Rightarrow> string option) \<Rightarrow> string list \<Rightarrow> string list \<times> string list" where
  "fan_out f [] = ([], [])"
| "fan_out f (u # us) =
     (case fan_out f us of (arts, failed) \<Rightarrow>
        (case f u of None \<Rightarrow> (arts, u # failed) | Some a \<Rightarrow> (a # arts, failed)))"

text \<open>
  Modelled from the spec: the merge stage (\<open>MergeGeneratedScriptsNode\<close> is not part of
  the sources at hand).  It "produces a single merged artifact via one LLM invocation that
  receives the prompt and all artifacts as context"; "if the artifact sequence is empty, or
  the LLM call fails to produce a value, returns an explicit sentinel failure string rather
  than throwing".
\<close>

definition merge_stage ::
    "(string \<Rightarrow> string list \<Rightarrow> string option) \<Rightarrow> string \<Rightarrow> string list \<Rightarrow> string" where
  "merge_stage llm p scripts =
     (if scripts = [] then sentinel
      else case llm p scripts of None \<Rightarrow> sentinel | Some t \<Rightarrow> t)"

text \<open>
  Modelled from the spec: how a stage finds its inputs in the state.  The input expression
  of a node in \<open>_create_graph\<close> joins the names of the state keys it reads with \<open>&\<close>.
\<close>

fun split_on :: "char \<Rightarrow> string \<Rightarrow> string list" where
  "split_on c [] = [[]]"
| "split_on c (x # xs) =
     (case split_on c xs of
        [] \<Rightarrow> [[x]]
      | w # ws \<Rightarrow> if x = c then [] # w # ws else (x # w) # ws)"

definition strip :: "string \<Rightarrow> string" where
  "strip s = rev (dropWhile (\<lambda>c. c = CHR '' '') (rev (dropWhile (\<lambda>c. c = CHR '' '') s)))"

definition input_keys :: "string \<Rightarrow> string list" where
  "input_keys e = map strip (split_on CHR ''&'' e)"

text \<open>Assignment to a key of a dict: in place when the key is there, at the end otherwise.\<close>

fun dict_set :: "pydict \<Rightarrow> string \<Rightarrow> pyval \<Rightarrow> pydict" where
  "dict_set [] k v = [(k, v)]"
| "dict_set (kv # d) k v = (if fst kv = k then (k, v) # d else kv # dict_set d k v)"

fun str_of :: "pyval \<Rightarrow> string option" where
  "str_of (VStr s) = Some s"
| "str_of v = None"

fun strs_of :: "pyval list \<Rightarrow> string list option" where
  "strs_of [] = Some []"
| "strs_of (v # vs) =
     (case str_of v of None \<Rightarrow> None
      | Some s \<Rightarrow> (case strs_of vs of None \<Rightarrow> None | Some ss \<Rightarrow> Some (s # ss)))"

text \<open>Reading a list of strings through a reference.\<close>

definition read_strs :: "heap \<Rightarrow> pyval \<Rightarrow> string list option" where
  "read_strs h v =
     (case v of
        VRef a \<Rightarrow>
          (if a < length h then (case h ! a of OList vs \<Rightarrow> strs_of vs | ODict kvs \<Rightarrow> None)
           else None)
      | _ \<Rightarrow> None)"

definition node_name :: "node \<Rightarrow> string" where
  "node_name nd = (case node_class nd of
                     GraphIteratorNode \<Rightarrow> ''GraphIterator''
                   | MergeGeneratedScriptsNode \<Rightarrow> ''MergeGeneratedScripts'')"

text \<open>
  Modelled from the spec: one stage of the pipeline run on the state.  A stage reads the
  prompt and a list of texts under the two keys of its input expression and writes its
  result under its output key.  The iterator stage runs the sub-pipeline, with the
  configuration and the schema it is bound to, once per URL, and stores the artifacts as a
  new list; a failed URL is reported in the execution metadata or aborts the run, after
  the policy.  The merge stage stores the merged artifact.
\<close>

definition exec_node ::
    "failure_policy \<Rightarrow> sub_pipeline \<Rightarrow> llm_merge \<Rightarrow> heap \<Rightarrow> node \<Rightarrow> pydict \<Rightarrow>
       error + (heap \<times> pydict \<times> pydict)" where
  "exec_node policy sub llm h nd st =
     (case (input_keys (node_input nd), node_output nd) of
        ([kp, kl], [ko]) \<Rightarrow>
          (case (map_of st kp, map_of st kl) of
             (Some (VStr p), Some l) \<Rightarrow>
               (case read_strs h l of
                  None \<Rightarrow> Inl (EngineError ''input is not a list of text'')
                | Some xs \<Rightarrow>
                    (case node_class nd of
                       GraphIteratorNode \<Rightarrow>
                         (case fan_out (sub (dict_get (node_config nd) ''scraper_config'' VNone)
                                           (node_schema nd) p) xs of
                            (arts, failed) \<Rightarrow>
                              if failed \<noteq> [] \<and> policy = AbortAll
                              then Inl (EngineError (hd failed))
                              else Inr (h @ [OList (map VStr arts)],
                                        dict_set st ko (VRef (length h)),
                                        (''node_name'', VStr (node_name nd)) #
                                          map (\<lambda>u. (''failed_url'', VStr u)) failed))
                     | MergeGeneratedScriptsNode \<Rightarrow>
                         Inr (h,
                              dict_set st ko
                                (VStr (merge_stage
                                   (llm (dict_get (node_config nd) ''schema'' VNone)) p xs)),
                              [(''node_name'', VStr (node_name nd))])))
           | _ \<Rightarrow> Inl (EngineError ''missing input''))
      | _ \<Rightarrow> Inl (EngineError ''malformed node''))"

text \<open>
  Modelled from the spec: the graph execution engine (\<open>BaseGraph.execute\<close> is not part of
  the sources at hand).  It "must accept a node/edge graph description plus an entry point
  and an initial input mapping, and return a final state mapping plus execution metadata":
  it runs the entry point on the input mapping and follows the edges, a stage after its
  predecessor, until a stage has no successor.  The number of steps is bounded by the
  number of nodes, and a graph that needs more has a cycle.
\<close>

fun exec_from ::
    "failure_policy \<Rightarrow> sub_pipeline \<Rightarrow> llm_merge \<Rightarrow> nat \<Rightarrow> base_graph \<Rightarrow> node \<Rightarrow>
       heap \<Rightarrow> pydict \<Rightarrow> exec_info \<Rightarrow> error + (heap \<times> pydict \<times> exec_info)" where
  "exec_from policy sub llm 0 g nd h st info = Inl (EngineError ''the graph has a cycle'')"
| "exec_from policy sub llm (Suc k) g nd h st info =
     (case exec_node policy sub llm h nd st of
        Inl e \<Rightarrow> Inl e
      | Inr (h', st', entry) \<Rightarrow>
          (case map snd (filter (\<lambda>e. fst e = nd) (edges g)) of
             [] \<Rightarrow> Inr (h', st', info @ [entry])
           | nxt # _ \<Rightarrow> exec_from policy sub llm k g nxt h' st' (info @ [entry])))"

definition spec_engine :: "failure_policy \<Rightarrow> sub_pipeline \<Rightarrow> llm_merge \<Rightarrow> engine" where
  "spec_engine policy sub llm h g inputs =
     exec_from policy sub llm (length (nodes g)) g (entry_point g) h inputs []"

section \<open>A sample construction\<close>

text \<open>
  A store, a base-class initialiser and some engines on which the theorems below are
  exercised.  The store holds the caller's configuration at address 0 (with a nested
  dict at 1), the list of URLs at 2 and an empty schema dict at 3.  The initialiser
  stores its arguments on the instance, normalises the caller's configuration in place
  and builds the pipeline with \<open>_create_graph\<close>.
\<close>

definition demo_heap :: heap where
  "demo_heap =
     [ODict [(''llm'', VRef 1)],
      ODict [(''model'', VStr ''openai/gpt-3.5-turbo'')],
      OList [VStr ''https://a.example'', VStr ''https://b.example''],
      ODict []]"

definition demo_base_init :: base_init where
  "demo_base_init h self p cfg src sch =
     (let h' = (case cfg of
                  VRef a \<Rightarrow>
                    (if a < length h then
                       (case h ! a of
                          ODict kvs \<Rightarrow> h[a := ODict (kvs @ [(''verbose'', VBool False)])]
                        | OList vs \<Rightarrow> h)
                     else h)
                | _ \<Rightarrow> h);
          self1 = self\<lparr>prompt := Some p, source := Some src, config := Some cfg,
                       schema := Some sch, llm_model := Some (VStr ''llm''),
                       final_state := None, execution_info := None\<rparr>
      in case create_graph self1 of
           Inl e \<Rightarrow> Inl e
         | Inr g \<Rightarrow> Inr (h', self1\<lparr>graph := Some g\<rparr>))"

definition demo_prompt :: pyval where
  "demo_prompt = VStr ''What is Chioggia famous for?''"

definition demo_init :: "error + (heap \<times> workflow)" where
  "demo_init = init demo_base_init demo_heap demo_prompt (VRef 2) (VRef 0) (VRef 3)"

definition demo_store :: heap where
  "demo_store = (case demo_init of Inr (h, w) \<Rightarrow> h | Inl e \<Rightarrow> [])"

definition demo_workflow :: workflow where
  "demo_workflow = (case demo_init of Inr (h, w) \<Rightarrow> w | Inl e \<Rightarrow> blank)"

text \<open>
  Four engines: one that returns a merged script, one that raises, one whose final state
  holds \<open>None\<close> under \<open>merged_script\<close>, and one that returns the model the merge stage
  of the graph it is given is bound to.
\<close>

definition script_engine :: engine where
  "script_engine h g inputs =
     Inr (h, inputs @ [(''scripts'', VNone), (''merged_script'', VStr ''import requests'')],
          [[(''node_name'', VStr ''GraphIterator'')], [(''node_name'', VStr ''MergeGeneratedScripts'')]])"

definition failing_engine :: engine where
  "failing_engine h g inputs = Inl (EngineError ''connection refused'')"

definition none_engine :: engine where
  "none_engine h g inputs = Inr (h, inputs @ [(''merged_script'', VNone)], [])"

definition probe_engine :: engine where
  "probe_engine h g inputs =
     Inr (h, inputs @
            [(''merged_script'', dict_get (node_config (last (nodes g))) ''llm_model'' VNone)],
          [])"

text \<open>
  The sample workflow after its owner has assigned another model to the attribute
  \<open>llm_model\<close>, which \<open>_create_graph\<close> reads.
\<close>

definition stale_workflow :: workflow where
  "stale_workflow = demo_workflow\<lparr>llm_model := Some (VStr ''another llm'')\<rparr>"

text \<open>
  The store after the caller has changed the model in the nested dict of its
  configuration.
\<close>

definition mutated_store :: heap where
  "mutated_store = demo_store[1 := ODict [(''model'', VStr ''ollama/llama3'')]]"

text \<open>The same construction with an empty list of URLs, and two collaborators.\<close>

definition empty_heap :: heap where
  "empty_heap = demo_heap[2 := OList []]"

definition empty_init :: "error + (heap \<times> workflow)" where
  "empty_init = init demo_base_init empty_heap demo_prompt (VRef 2) (VRef 0) (VRef 3)"

definition empty_store :: heap where
  "empty_store = (case empty_init of Inr (h, w) \<Rightarrow> h | Inl e \<Rightarrow> [])"

definition empty_workflow :: workflow where
  "empty_workflow = (case empty_init of Inr (h, w) \<Rightarrow> w | Inl e \<Rightarrow> blank)"

definition demo_sub :: sub_pipeline where
  "demo_sub cfg sch p u = Some (''# scraper for '' @ u)"

definition demo_llm :: llm_merge where
  "demo_llm sch p scripts = Some (concat scripts)"

section \<open>Shape of the pipeline\<close>

lemma create_graph_Inr:
  "create_graph self = Inr g \<Longrightarrow>
     \<exists>cc cs lm sc. copy_config self = Some cc \<and> copy_schema self = Some cs \<and>
       llm_model self = Some lm \<and> schema self = Some sc \<and>
       g = \<lparr> nodes = [graph_iterator_node cc cs, merge_scripts_node lm sc],
             edges = [(graph_iterator_node cc cs, merge_scripts_node lm sc)],
             entry_point = graph_iterator_node cc cs,
             graph_name = ''ScriptCreatorMultiGraph'' \<rparr>"
  by (auto simp: create_graph_def getattr_def split: option.splits)

lemma run_Inr:
  "run execute h self = Inr (h', self', v) \<Longrightarrow>
     \<exists>p s g fs info. prompt self = Some p \<and> source self = Some s \<and> graph self = Some g \<and>
       execute h g (run_inputs p s) = Inr (h', fs, info) \<and>
       self' = self\<lparr>final_state := Some fs, execution_info := Some info\<rparr> \<and>
       v = dict_get fs ''merged_script'' (VStr sentinel)"
  by (auto simp: run_def getattr_def split: option.splits sum.splits)

section \<open>Sample runs\<close>

lemmas demo_defs =
  demo_init_def init_def snapshots_def safe_deepcopy_def demo_heap_def
  demo_base_init_def blank_def create_graph_def getattr_def demo_prompt_def
  demo_store_def demo_workflow_def graph_iterator_node_def merge_scripts_node_def
  ScriptCreatorGraph_def

lemmas run_defs = run_def run_inputs_def dict_get_def getattr_def

lemma demo_graph_built:
  "\<exists>g. create_graph demo_workflow = Inr g \<and> graph demo_workflow = Some g"
  by (simp add: demo_defs)

lemma demo_run_script:
  "\<exists>h' self'. run script_engine demo_store demo_workflow = Inr (h', self', VStr ''import requests'')"
  by (simp add: demo_defs run_defs script_engine_def)

text \<open>
  Claim C7.  The graph that \<open>_create_graph\<close> builds has exactly two nodes, the iterator
  stage and the merge stage; the iterator is the entry point; the only edge leads from the
  iterator to the merge stage, so that the merge stage has the iterator as its only
  predecessor and the iterator has none; and \<open>run\<close> hands the engine this graph with an
  input mapping made of exactly the prompt, under \<open>user_prompt\<close>, and the source list,
  under \<open>urls\<close>.
\<close>

theorem pipeline_iterator_then_merge:
  assumes "create_graph self = Inr g" and "graph self = Some g"
    and "run execute h self = Inr (h', self', v)"
  shows "\<exists>it mg p s fs info.
      nodes g = [it, mg] \<and> node_class it = GraphIteratorNode \<and>
      node_class mg = MergeGeneratedScriptsNode \<and>
      entry_point g = it \<and> edges g = [(it, mg)] \<and>
      predecessors g mg = [it] \<and> predecessors g it = [] \<and>
      prompt self = Some p \<and> source self = Some s \<and>
      execute h g [(''user_prompt'', p), (''urls'', s)] = Inr (h', fs, info)"
proof -
  from create_graph_Inr [OF assms(1)] obtain cc cs lm sc where
    g: "g = \<lparr> nodes = [graph_iterator_node cc cs, merge_scripts_node lm sc],
             edges = [(graph_iterator_node cc cs, merge_scripts_node lm sc)],
             entry_point = graph_iterator_node cc cs,
             graph_name = ''ScriptCreatorMultiGraph'' \<rparr>"
    by blast
  from run_Inr [OF assms(3)] assms(2) obtain p s fs info where
    r: "prompt self = Some p" "source self = Some s"
       "execute h g (run_inputs p s) = Inr (h', fs, info)"
    by auto
  have neq: "graph_iterator_node cc cs \<noteq> merge_scripts_node lm sc"
    by (simp add: graph_iterator_node_def merge_scripts_node_def)
  have cls: "node_class (graph_iterator_node cc cs) = GraphIteratorNode"
       "node_class (merge_scripts_node lm sc) = MergeGeneratedScriptsNode"
    by (simp_all add: graph_iterator_node_def merge_scripts_node_def)
  have pre: "predecessors g (merge_scripts_node lm sc) = [graph_iterator_node cc cs]"
       "predecessors g (graph_iterator_node cc cs) = []"
    using neq by (auto simp: predecessors_def g)
  show ?thesis
    using g r cls pre by (simp add: run_inputs_def)
qed

theorem pipeline_iterator_then_merge_witness:
  "\<exists>g h' self' v it mg.
      create_graph demo_workflow = Inr g \<and> graph demo_workflow = Some g \<and>
      run script_engine demo_store demo_workflow = Inr (h', self', v) \<and>
      nodes g = [it, mg] \<and> entry_point g = it \<and> edges g = [(it, mg)] \<and>
      predecessors g mg = [it]"
proof -
  obtain g where g: "create_graph demo_workflow = Inr g" "graph demo_workflow = Some g"
    using demo_graph_built by blast
  obtain h' self' where r:
    "run script_engine demo_store demo_workflow = Inr (h', self', VStr ''import requests'')"
    using demo_run_script by blast
  from pipeline_iterator_then_merge [OF g r] g r show ?thesis by blast
qed

section \<open>What \<open>run\<close> returns\<close>

text \<open>
  Claim C10.  The state keys are wired consistently: the iterator stage writes under
  \<open>scripts\<close>, the merge stage reads \<open>user_prompt\<close> and that same key and writes under
  \<open>merged_script\<close>, and \<open>run\<close> reads that key from the final state, so that whenever
  the final state holds an output of the merge stage, \<open>run\<close> returns that output.
\<close>

theorem state_keys_wired:
  assumes "create_graph self = Inr g" and "graph self = Some g"
    and "run execute h self = Inr (h', self', v)"
  shows "\<exists>it mg k_scripts k_out p s fs info.
      nodes g = [it, mg] \<and>
      node_output it = [k_scripts] \<and> k_scripts = ''scripts'' \<and>
      node_input mg = ''user_prompt & '' @ k_scripts \<and>
      node_output mg = [k_out] \<and> k_out = ''merged_script'' \<and>
      prompt self = Some p \<and> source self = Some s \<and>
      execute h g (run_inputs p s) = Inr (h', fs, info) \<and>
      v = dict_get fs k_out (VStr sentinel) \<and>
      (\<forall>out. map_of fs k_out = Some out \<longrightarrow> v = out)"
proof -
  from create_graph_Inr [OF assms(1)] obtain cc cs lm sc where
    g: "nodes g = [graph_iterator_node cc cs, merge_scripts_node lm sc]"
    by auto
  from run_Inr [OF assms(3)] assms(2) obtain p s fs info where
    r: "prompt self = Some p" "source self = Some s"
       "execute h g (run_inputs p s) = Inr (h', fs, info)"
       "v = dict_get fs ''merged_script'' (VStr sentinel)"
    by auto
  have out: "\<forall>out. map_of fs ''merged_script'' = Some out \<longrightarrow> v = out"
    using r(4) by (simp add: dict_get_def)
  show ?thesis
    using g r out by (simp add: graph_iterator_node_def merge_scripts_node_def)
qed

theorem state_keys_wired_witness:
  "\<exists>g h' self' it mg.
      create_graph demo_workflow = Inr g \<and> graph demo_workflow = Some g \<and>
      run script_engine demo_store demo_workflow = Inr (h', self', VStr ''import requests'') \<and>
      nodes g = [it, mg] \<and> node_output it = [''scripts''] \<and>
      node_input mg = ''user_prompt & scripts'' \<and> node_output mg = [''merged_script'']"
proof -
  obtain g where g: "create_graph demo_workflow = Inr g" "graph demo_workflow = Some g"
    using demo_graph_built by blast
  obtain h' self' where r:
    "run script_engine demo_store demo_workflow = Inr (h', self', VStr ''import requests'')"
    using demo_run_script by blast
  from state_keys_wired [OF g r] obtain it mg where
    "nodes g = [it, mg]" "node_output it = [''scripts'']"
    "node_input mg = ''user_prompt & '' @ ''scripts''" "node_output mg = [''merged_script'']"
    by blast
  with g r show ?thesis by simp
qed

lemma demo_attrs:
  "prompt demo_workflow = Some demo_prompt" "source demo_workflow = Some (VRef 2)"
  "\<exists>g. graph demo_workflow = Some g"
  by (simp_all add: demo_defs)

text \<open>
  Claim C2, as the code has it.  \<open>run\<close> has no handler around the call of the engine and
  returns what the final state holds under \<open>merged_script\<close> as it is: when the engine
  raises, so does \<open>run\<close>; when the engine returns a final state, \<open>run\<close> returns the
  value stored under \<open>merged_script\<close> if the key is there, whatever that value is, and
  the sentinel string if the key is missing.
\<close>

theorem run_result_cases:
  assumes "prompt self = Some p" and "source self = Some s" and "graph self = Some g"
  shows "(\<forall>e. execute h g (run_inputs p s) = Inl e \<longrightarrow> run execute h self = Inl e) \<and>
         (\<forall>h' fs info. execute h g (run_inputs p s) = Inr (h', fs, info) \<longrightarrow>
            (\<exists>self'. run execute h self =
               Inr (h', self', case map_of fs ''merged_script'' of
                                 None \<Rightarrow> VStr sentinel | Some out \<Rightarrow> out)))"
  using assms by (simp add: run_def getattr_def dict_get_def)

theorem run_result_cases_witness:
  "run failing_engine demo_store demo_workflow = Inl (EngineError ''connection refused'') \<and>
   (\<exists>h' self'. run script_engine demo_store demo_workflow =
      Inr (h', self', VStr ''import requests'')) \<and>
   (\<exists>h' self'. run (\<lambda>h g inputs. Inr (h, inputs, [])) demo_store demo_workflow =
      Inr (h', self', VStr sentinel))"
proof -
  obtain g where g: "graph demo_workflow = Some g"
    using demo_attrs(3) by blast
  note c = run_result_cases [OF demo_attrs(1) demo_attrs(2) g]
  have 1: "run failing_engine demo_store demo_workflow = Inl (EngineError ''connection refused'')"
    using c [of failing_engine demo_store] by (simp add: failing_engine_def)
  have 2: "\<exists>h' self'. run script_engine demo_store demo_workflow =
      Inr (h', self', VStr ''import requests'')"
    using c [of script_engine demo_store] by (auto simp: script_engine_def run_inputs_def)
  have 3: "\<exists>h' self'. run (\<lambda>h g inputs. Inr (h, inputs, [])) demo_store demo_workflow =
      Inr (h', self', VStr sentinel)"
    using c [of "\<lambda>h g inputs. Inr (h, inputs, [])" demo_store] by (auto simp: run_inputs_def)
  from 1 2 3 show ?thesis by blast
qed

text \<open>
  Claim C2 as stated fails: with an engine that raises, \<open>run\<close> raises; with an engine
  whose final state holds \<open>None\<close> under \<open>merged_script\<close>, \<open>run\<close> returns \<open>None\<close>.
\<close>

theorem run_raises_and_returns_none:
  "run failing_engine demo_store demo_workflow = Inl (EngineError ''connection refused'') \<and>
   (\<exists>h' self'. run none_engine demo_store demo_workflow = Inr (h', self', VNone))"
  by (simp add: demo_defs run_defs failing_engine_def none_engine_def)

text \<open>
  Claim C4, as the code has it.  \<open>run\<close> takes no argument besides the instance: the
  prompt and the source list are the attributes \<open>prompt\<close> and \<open>source\<close> of the
  instance, which \<open>run\<close> passes to the engine under \<open>user_prompt\<close> and \<open>urls\<close>; it
  returns what the final state holds under \<open>merged_script\<close>, or the sentinel.
\<close>

theorem run_takes_inputs_from_instance:
  assumes "call_run execute h self args = Inr (h', self', v)"
  shows "args = [] \<and>
         (\<exists>p s g fs info. prompt self = Some p \<and> source self = Some s \<and>
            graph self = Some g \<and>
            execute h g [(''user_prompt'', p), (''urls'', s)] = Inr (h', fs, info) \<and>
            v = dict_get fs ''merged_script'' (VStr sentinel))"
proof -
  from assms have a: "args = []" and r: "run execute h self = Inr (h', self', v)"
    by (auto simp: call_run_def split: if_splits)
  from run_Inr [OF r] a show ?thesis
    by (auto simp: run_inputs_def)
qed

theorem run_takes_inputs_from_instance_witness:
  "\<exists>h' self' fs info g.
     call_run script_engine demo_store demo_workflow [] =
       Inr (h', self', VStr ''import requests'') \<and>
     graph demo_workflow = Some g \<and>
     script_engine demo_store g [(''user_prompt'', demo_prompt), (''urls'', VRef 2)] =
       Inr (h', fs, info)"
proof -
  obtain h' self' where r:
    "call_run script_engine demo_store demo_workflow [] =
       Inr (h', self', VStr ''import requests'')"
    using demo_run_script by (auto simp: call_run_def)
  from run_takes_inputs_from_instance [OF r] demo_attrs(1,2) r show ?thesis
    by auto
qed

text \<open>
  Claim C4 as stated fails: a call of \<open>run\<close> with a prompt and a list of URLs as
  arguments raises \<open>TypeError\<close>.
\<close>

theorem run_rejects_arguments:
  "call_run script_engine demo_store demo_workflow [demo_prompt, VRef 2] = Inl TypeError"
  by (simp add: call_run_def)

section \<open>What the stages are bound to\<close>

text \<open>
  Claim C5, as the code has it.  The iterator stage is bound to the two snapshots: its
  \<open>scraper_config\<close> is the attribute \<open>copy_config\<close> and its schema is
  \<open>copy_schema\<close>.  The merge stage gets no snapshot of the configuration: its
  configuration has the keys \<open>llm_model\<close> and \<open>schema\<close> and no other, and its
  \<open>llm_model\<close> is the attribute \<open>llm_model\<close> of the instance as it is.
\<close>

theorem stage_bindings:
  assumes "create_graph self = Inr g"
  shows "\<exists>it mg. nodes g = [it, mg] \<and>
           map_of (node_config it) ''scraper_config'' = copy_config self \<and>
           node_schema it = copy_schema self \<and>
           map fst (node_config mg) = [''llm_model'', ''schema''] \<and>
           map_of (node_config mg) ''llm_model'' = llm_model self \<and>
           node_schema mg = None"
  using create_graph_Inr [OF assms]
  by (auto simp: graph_iterator_node_def merge_scripts_node_def)

theorem stage_bindings_witness:
  "\<exists>g it mg. create_graph demo_workflow = Inr g \<and> nodes g = [it, mg] \<and>
     map_of (node_config it) ''scraper_config'' = Some (VRef 4) \<and>
     node_schema it = Some (VRef 11) \<and>
     map_of (node_config mg) ''llm_model'' = Some (VStr ''llm'')"
proof -
  obtain g where g: "create_graph demo_workflow = Inr g"
    using demo_graph_built by blast
  have a: "copy_config demo_workflow = Some (VRef 4)" "copy_schema demo_workflow = Some (VRef 11)"
    "llm_model demo_workflow = Some (VStr ''llm'')"
    by (simp_all add: demo_defs)
  from stage_bindings [OF g] g a show ?thesis by auto
qed

text \<open>
  Claim C5 as stated fails for the merge stage: in the sample construction, where the
  caller's schema is the object at address 3 and its snapshot the object at 11, the merge
  stage holds the attribute \<open>llm_model\<close> of the instance and the reference 3, and
  neither the configuration snapshot nor the schema snapshot.
\<close>

theorem merge_stage_gets_uncopied_schema:
  "\<exists>h w g. init demo_base_init demo_heap demo_prompt (VRef 2) (VRef 0) (VRef 3) = Inr (h, w) \<and>
     create_graph w = Inr g \<and>
     copy_config w = Some (VRef 4) \<and> copy_schema w = Some (VRef 11) \<and>
     node_config (nodes g ! 1) = [(''llm_model'', VStr ''llm''), (''schema'', VRef 3)] \<and>
     llm_model w = Some (VStr ''llm'') \<and>
     node_schema (nodes g ! 1) = None"
  by (simp add: demo_defs)

section \<open>What \<open>run\<close> does to the instance\<close>

text \<open>
  Claim C6, as the code has it.  \<open>run\<close> builds nothing: it executes the pipeline stored
  in the attribute \<open>graph\<close> and leaves that attribute as it is, so that two calls in a
  row on one instance hand the engine the same pipeline.
\<close>

theorem run_reuses_stored_pipeline:
  assumes "run execute h self = Inr (h1, self1, v1)"
    and "run execute h1 self1 = Inr (h2, self2, v2)"
  shows "\<exists>g p s fs1 info1 fs2 info2.
           graph self = Some g \<and> graph self1 = Some g \<and> graph self2 = Some g \<and>
           execute h g (run_inputs p s) = Inr (h1, fs1, info1) \<and>
           execute h1 g (run_inputs p s) = Inr (h2, fs2, info2)"
proof -
  from run_Inr [OF assms(1)] obtain p s g fs info where
    a: "prompt self = Some p" "source self = Some s" "graph self = Some g"
       "execute h g (run_inputs p s) = Inr (h1, fs, info)"
       "self1 = self\<lparr>final_state := Some fs, execution_info := Some info\<rparr>"
    by blast
  from run_Inr [OF assms(2)] obtain p' s' g' fs' info' where
    b: "prompt self1 = Some p'" "source self1 = Some s'" "graph self1 = Some g'"
       "execute h1 g' (run_inputs p' s') = Inr (h2, fs', info')"
       "self2 = self1\<lparr>final_state := Some fs', execution_info := Some info'\<rparr>"
    by blast
  from a b have "p' = p" "s' = s" "g' = g" by simp_all
  with a b show ?thesis by auto
qed

theorem run_reuses_stored_pipeline_witness:
  "\<exists>h1 self1 v1 h2 self2 v2 g.
     run script_engine demo_store demo_workflow = Inr (h1, self1, v1) \<and>
     run script_engine h1 self1 = Inr (h2, self2, v2) \<and>
     graph demo_workflow = Some g \<and> graph self1 = Some g \<and> graph self2 = Some g"
proof -
  obtain h1 self1 where r1:
    "run script_engine demo_store demo_workflow = Inr (h1, self1, VStr ''import requests'')"
    using demo_run_script by blast
  have "\<exists>h2 self2 v2. run script_engine h1 self1 = Inr (h2, self2, v2)"
    using run_Inr [OF r1] by (auto simp: run_def getattr_def script_engine_def)
  then obtain h2 self2 v2 where r2: "run script_engine h1 self1 = Inr (h2, self2, v2)"
    by blast
  from run_reuses_stored_pipeline [OF r1 r2] r1 r2 show ?thesis by blast
qed

text \<open>
  Claim C6 as stated fails: on the sample workflow whose \<open>llm_model\<close> attribute was
  reassigned after construction, \<open>run\<close> executes the pipeline built at construction
  (the merge stage still holds the first model), where a pipeline built within the call
  would hold the new one.
\<close>

theorem run_does_not_rebuild_pipeline:
  "(\<exists>h' self'. run probe_engine demo_store stale_workflow =
      Inr (h', self', VStr ''llm'')) \<and>
   (\<exists>h' self'. run_fresh probe_engine demo_store stale_workflow =
      Inr (h', self', VStr ''another llm''))"
  by (simp add: stale_workflow_def run_fresh_def demo_defs run_defs probe_engine_def)

text \<open>
  Claim C8, as the code has it.  \<open>run\<close> stores the final state and the execution
  metadata on the instance, and leaves the two snapshots, the configuration and the
  pipeline on it as they were: all of them are there after the call.
\<close>

theorem run_keeps_state_on_instance:
  assumes "run execute h self = Inr (h', self', v)"
  shows "\<exists>fs info. final_state self' = Some fs \<and> execution_info self' = Some info \<and>
           v = dict_get fs ''merged_script'' (VStr sentinel) \<and>
           copy_config self' = copy_config self \<and> copy_schema self' = copy_schema self \<and>
           config self' = config self \<and> graph self' = graph self"
  using run_Inr [OF assms] by auto

theorem run_keeps_state_on_instance_witness:
  "\<exists>h' self' fs.
      run script_engine demo_store demo_workflow = Inr (h', self', VStr ''import requests'') \<and>
      final_state self' = Some fs \<and> copy_config self' = copy_config demo_workflow"
proof -
  obtain h' self' where r:
    "run script_engine demo_store demo_workflow = Inr (h', self', VStr ''import requests'')"
    using demo_run_script by blast
  from run_keeps_state_on_instance [OF r] r show ?thesis by blast
qed

text \<open>
  Claim C8 as stated fails: after a run of the sample workflow, the final state, the
  execution metadata and both snapshots are attributes of the instance.
\<close>

theorem state_persists_after_run:
  "\<exists>h' self' v. run script_engine demo_store demo_workflow = Inr (h', self', v) \<and>
      final_state self' \<noteq> None \<and> execution_info self' \<noteq> None \<and>
      copy_config self' = Some (VRef 4) \<and> copy_schema self' = Some (VRef 11)"
  by (simp add: demo_defs run_defs script_engine_def)

section \<open>Independence of the snapshot\<close>

lemma children_shift_obj: "children (shift_obj k ob) = map (shift_val k) (children ob)"
  by (cases ob) (simp_all add: comp_def)

lemma wf_heap_child:
  "wf_heap h \<Longrightarrow> a < length h \<Longrightarrow> v \<in> set (children (h ! a)) \<Longrightarrow> wf_val (length h) v"
  by (auto simp: wf_heap_def list_all_iff)

lemma unfold_relocated:
  assumes wf: "wf_heap h"
    and R: "\<forall>a<length h. a + length h < length h2 \<and>
              h2 ! (a + length h) = shift_obj (length h) (h ! a)"
  shows "wf_val (length h) v \<Longrightarrow> unfold n h2 (shift_val (length h) v) = unfold n h v"
proof (induction n arbitrary: v)
  case 0
  show ?case by (cases v) simp_all
next
  case (Suc n)
  show ?case
  proof (cases v)
    case (VRef a)
    with Suc.prems have a: "a < length h" by simp
    from R a have b: "a + length h < length h2"
      "h2 ! (a + length h) = shift_obj (length h) (h ! a)" by auto
    have ih: "\<And>w. w \<in> set (children (h ! a)) \<Longrightarrow>
        unfold n h2 (shift_val (length h) w) = unfold n h w"
      using Suc.IH wf_heap_child [OF wf a] by blast
    show ?thesis
      using VRef a b ih by (cases "h ! a") auto
  qed simp_all
qed

lemma reach_outside:
  assumes "sealed lo h hx" and "\<forall>a\<in>K. a < lo" and "b \<in> reach hx K"
  shows "b < lo \<or> 2 * lo \<le> b"
  using assms(3)
proof (induction rule: reach.induct)
  case (reach_known a)
  with assms(2) show ?case by auto
next
  case (reach_child a b)
  with assms(1) show ?case unfolding sealed_def by blast
qed

lemma sealed_store:
  assumes s: "sealed lo h hx" and a: "a < length hx" "a < lo \<or> 2 * lo \<le> a"
    and ob: "\<forall>b. VRef b \<in> set (children ob) \<longrightarrow> b < lo \<or> 2 * lo \<le> b"
  shows "sealed lo h (hx[a := ob])"
  unfolding sealed_def
proof (intro conjI allI impI)
  show "2 * lo \<le> length (hx[a := ob])" using s by (simp add: sealed_def)
next
  fix c assume "c < lo"
  with a s show "hx[a := ob] ! (c + lo) = shift_obj lo (h ! c)"
    by (auto simp: sealed_def nth_list_update)
next
  fix c b assume c: "c < length (hx[a := ob])" "c < lo \<or> 2 * lo \<le> c"
    and b: "VRef b \<in> set (children (hx[a := ob] ! c))"
  show "b < lo \<or> 2 * lo \<le> b"
  proof (cases "c = a")
    case True
    with b a ob show ?thesis by simp
  next
    case False
    with b c s show ?thesis unfolding sealed_def by (simp) blast
  qed
qed

lemma sealed_append:
  assumes s: "sealed lo h hx"
    and ob: "\<forall>b. VRef b \<in> set (children new) \<longrightarrow> b < lo \<or> 2 * lo \<le> b"
  shows "sealed lo h (hx @ [new])"
  unfolding sealed_def
proof (intro conjI allI impI)
  show "2 * lo \<le> length (hx @ [new])" using s by (simp add: sealed_def)
next
  fix c assume "c < lo"
  with s show "(hx @ [new]) ! (c + lo) = shift_obj lo (h ! c)"
    by (auto simp: sealed_def nth_append)
next
  fix c b assume c: "c < length (hx @ [new])" "c < lo \<or> 2 * lo \<le> c"
    and b: "VRef b \<in> set (children ((hx @ [new]) ! c))"
  show "b < lo \<or> 2 * lo \<le> b"
  proof (cases "c < length hx")
    case True
    with b c s show ?thesis unfolding sealed_def by (simp add: nth_append) blast
  next
    case False
    with c have "c = length hx" by simp
    with b ob show ?thesis by simp
  qed
qed

lemma mutate_sealed:
  assumes "mutate K h2 h4" and "sealed lo h h2" and K: "\<forall>a\<in>K. a < lo"
  shows "sealed lo h h4"
  using assms(1)
proof (induction rule: mutate.induct)
  case mutate_none
  show ?case by (rule assms(2))
next
  case (mutate_store h1 a ob)
  have len: "2 * lo \<le> length h2" using assms(2) by (simp add: sealed_def)
  have own: "\<And>b. b \<in> reach h1 K \<or> length h2 \<le> b \<Longrightarrow> b < lo \<or> 2 * lo \<le> b"
    using reach_outside [OF mutate_store.IH K] len by auto
  have ob: "\<forall>b. VRef b \<in> set (children ob) \<longrightarrow> b < lo \<or> 2 * lo \<le> b"
    using mutate_store.hyps(4) own by blast
  show ?case
    by (rule sealed_store [OF mutate_store.IH mutate_store.hyps(2) own [OF mutate_store.hyps(3)] ob])
next
  case (mutate_alloc h1 new)
  have len: "2 * lo \<le> length h2" using assms(2) by (simp add: sealed_def)
  have own: "\<And>b. b \<in> reach h1 K \<or> length h2 \<le> b \<Longrightarrow> b < lo \<or> 2 * lo \<le> b"
    using reach_outside [OF mutate_alloc.IH K] len by auto
  have n: "\<forall>b. VRef b \<in> set (children new) \<longrightarrow> b < lo \<or> 2 * lo \<le> b"
    using mutate_alloc.hyps(2) own by blast
  show ?case
    by (rule sealed_append [OF mutate_alloc.IH n])
qed

lemma shift_val_ref: "shift_val k x = VRef b \<Longrightarrow> k \<le> b"
  by (cases x) auto

lemma shift_obj_refs: "VRef b \<in> set (children (shift_obj k ob)) \<Longrightarrow> k \<le> b"
  by (auto simp: children_shift_obj dest: shift_val_ref [OF sym])

lemma sealed_copy:
  assumes "wf_heap h"
  shows "sealed (length h) h (h @ map (shift_obj (length h)) h)"
  unfolding sealed_def
proof (intro conjI allI impI)
  show "2 * length h \<le> length (h @ map (shift_obj (length h)) h)" by simp
next
  fix a assume "a < length h"
  then show "(h @ map (shift_obj (length h)) h) ! (a + length h) = shift_obj (length h) (h ! a)"
    by (simp add: nth_append)
next
  fix a b
  assume a: "a < length (h @ map (shift_obj (length h)) h)" "a < length h \<or> 2 * length h \<le> a"
    and b: "VRef b \<in> set (children ((h @ map (shift_obj (length h)) h) ! a))"
  from a have lt: "a < length h" by simp
  with b have "VRef b \<in> set (children (h ! a))" by (simp add: nth_append)
  from wf_heap_child [OF assms lt this] show "b < length h \<or> 2 * length h \<le> b" by simp
qed

lemma sealed_extend:
  assumes s: "sealed lo h hx"
    and ys: "\<forall>ob\<in>set ys. \<forall>b. VRef b \<in> set (children ob) \<longrightarrow> 2 * lo \<le> b"
  shows "sealed lo h (hx @ ys)"
  unfolding sealed_def
proof (intro conjI allI impI)
  show "2 * lo \<le> length (hx @ ys)" using s by (simp add: sealed_def)
next
  fix c assume "c < lo"
  with s show "(hx @ ys) ! (c + lo) = shift_obj lo (h ! c)"
    by (auto simp: sealed_def nth_append)
next
  fix c b assume c: "c < length (hx @ ys)" "c < lo \<or> 2 * lo \<le> c"
    and b: "VRef b \<in> set (children ((hx @ ys) ! c))"
  show "b < lo \<or> 2 * lo \<le> b"
  proof (cases "c < length hx")
    case True
    with b c s show ?thesis unfolding sealed_def by (simp add: nth_append) blast
  next
    case False
    with c have "(hx @ ys) ! c \<in> set ys" by (simp add: nth_append)
    with b ys show ?thesis by blast
  qed
qed

lemma snapshots_copy_config:
  "copy_config (snd (snapshots h w cfg sch)) = Some (snd (deepcopy h cfg))"
  by (simp add: snapshots_def safe_deepcopy_def split: prod.splits)

lemma sealed_snapshots:
  assumes "wf_heap h"
  shows "sealed (length h) h (fst (snapshots h w (VRef a) sch))"
proof -
  define h1 where "h1 = h @ map (shift_obj (length h)) h"
  have l1: "length h1 = 2 * length h" by (simp add: h1_def)
  have s1: "sealed (length h) h h1"
    unfolding h1_def by (rule sealed_copy [OF assms])
  have s2: "sealed (length h) h (h1 @ map (shift_obj (length h1)) h1)"
    by (rule sealed_extend [OF s1]) (auto simp: l1 dest: shift_obj_refs)
  have "fst (snapshots h w (VRef a) sch) = fst (deepcopy h1 sch)"
    by (simp add: snapshots_def safe_deepcopy_def h1_def split: prod.splits)
  with s1 s2 show ?thesis by (cases sch) simp_all
qed

lemma sealed_unfold:
  assumes "wf_heap h" and "wf_val (length h) v" and "sealed (length h) h hx"
  shows "unfold n hx (shift_val (length h) v) = unfold n h v"
proof -
  have "\<forall>a<length h. a + length h < length hx \<and>
              hx ! (a + length h) = shift_obj (length h) (h ! a)"
    using assms(3) by (auto simp: sealed_def)
  from unfold_relocated [OF assms(1) this assms(2)] show ?thesis .
qed

lemma iterator_scraper_config:
  "create_graph self = Inr g \<Longrightarrow>
     map_of (node_config (entry_point g)) ''scraper_config'' = copy_config self"
  by (auto dest!: create_graph_Inr simp: graph_iterator_node_def)

lemma refs_bounded: "wf_val n v \<Longrightarrow> \<forall>a\<in>refs v. a < n"
  by (cases v) simp_all

lemma init_Inr:
  assumes "base_init_frame super_init" and "init super_init h p src cfg sch = Inr (h3, self)"
  shows "copy_config self = Some (snd (deepcopy h cfg)) \<and>
         mutate (refs cfg) (fst (snapshots h blank cfg sch)) h3"
proof -
  from assms(2) have call:
    "super_init (fst (snapshots h blank cfg sch)) (snd (snapshots h blank cfg sch))
        p cfg src sch = Inr (h3, self)"
    by (simp add: init_def split: prod.splits)
  from assms(1) have frame: "\<And>h self p cfg src sch h' self'.
      super_init h self p cfg src sch = Inr (h', self') \<Longrightarrow>
        copy_config self' = copy_config self \<and> mutate (refs cfg) h h'"
    unfolding base_init_frame_def by blast
  from frame [OF call] have
    "copy_config self = copy_config (snd (snapshots h blank cfg sch))"
    "mutate (refs cfg) (fst (snapshots h blank cfg sch)) h3"
    by simp_all
  then show ?thesis by (simp add: snapshots_copy_config)
qed

text \<open>
  The snapshot after any mutation through references that existed before the constructor
  was called looks like the configuration did when it was passed.
\<close>

lemma snapshot_unfold:
  assumes wf: "wf_heap h" "wf_val (length h) cfg"
    and m: "mutate K (fst (snapshots h blank cfg sch)) hx"
    and K: "\<forall>a\<in>K. a < length h"
  shows "unfold n hx (snd (deepcopy h cfg)) = unfold n h cfg"
proof (cases cfg)
  case (VRef a)
  have "sealed (length h) h hx"
    using mutate_sealed [OF m [unfolded VRef] sealed_snapshots [OF wf(1)] K] .
  from sealed_unfold [OF wf this] VRef show ?thesis by simp
qed simp_all

lemma mutate_trans:
  assumes "mutate K h1 h2" and "mutate K h2 h3" and "length h1 \<le> length h2"
  shows "mutate K h1 h3"
  using assms(2)
proof (induction rule: mutate.induct)
  case mutate_none
  show ?case by (rule assms(1))
next
  case (mutate_store hx a ob)
  have own: "\<And>b. b \<in> reach hx K \<or> length h2 \<le> b \<Longrightarrow> b \<in> reach hx K \<or> length h1 \<le> b"
    using assms(3) by auto
  show ?case
    by (rule mutate.mutate_store [OF mutate_store.IH mutate_store.hyps(2)
          own [OF mutate_store.hyps(3)]])
       (use mutate_store.hyps(4) own in blast)
next
  case (mutate_alloc hx new)
  have own: "\<And>b. b \<in> reach hx K \<or> length h2 \<le> b \<Longrightarrow> b \<in> reach hx K \<or> length h1 \<le> b"
    using assms(3) by auto
  show ?case
    by (rule mutate.mutate_alloc [OF mutate_alloc.IH])
       (use mutate_alloc.hyps(2) own in blast)
qed

lemma mutate_length: "mutate K h h' \<Longrightarrow> length h \<le> length h'"
  by (induction rule: mutate.induct) simp_all

lemma mutate_mono:
  assumes "mutate K h h'" and "K \<subseteq> K'"
  shows "mutate K' h h'"
  using assms(1)
proof (induction rule: mutate.induct)
  case mutate_none
  show ?case by (rule mutate.mutate_none)
next
  case (mutate_store hx a ob)
  have sub: "\<And>b. b \<in> reach hx K \<Longrightarrow> b \<in> reach hx K'"
  proof -
    fix b assume "b \<in> reach hx K"
    then show "b \<in> reach hx K'"
      by (induction rule: reach.induct) (use assms(2) in \<open>auto intro: reach.intros\<close>)
  qed
  show ?case
    by (rule mutate.mutate_store [OF mutate_store.IH mutate_store.hyps(2)])
       (use mutate_store.hyps(3,4) sub in blast)+
next
  case (mutate_alloc hx new)
  have sub: "\<And>b. b \<in> reach hx K \<Longrightarrow> b \<in> reach hx K'"
  proof -
    fix b assume "b \<in> reach hx K"
    then show "b \<in> reach hx K'"
      by (induction rule: reach.induct) (use assms(2) in \<open>auto intro: reach.intros\<close>)
  qed
  show ?case
    by (rule mutate.mutate_alloc [OF mutate_alloc.IH])
       (use mutate_alloc.hyps(2) sub in blast)
qed

text \<open>
  Claim C9.  The constructor takes its snapshots before it calls the initialiser of the
  base class.  Whatever that initialiser then does to the store through the configuration
  it is given, as long as it does not reassign \<open>copy_config\<close>, the configuration that the
  iterator stage is bound to looks, at every depth, exactly like the caller's
  configuration as it was when it was passed.
\<close>

theorem snapshot_is_config_as_passed:
  assumes "wf_heap h" and "wf_val (length h) cfg"
    and "base_init_frame super_init"
    and "init super_init h p src cfg sch = Inr (h3, self)"
    and "create_graph self = Inr g"
  shows "\<exists>cc. map_of (node_config (entry_point g)) ''scraper_config'' = Some cc \<and>
           (\<forall>n. unfold n h3 cc = unfold n h cfg)"
proof -
  from init_Inr [OF assms(3,4)] have
    c: "copy_config self = Some (snd (deepcopy h cfg))" and
    m: "mutate (refs cfg) (fst (snapshots h blank cfg sch)) h3"
    by simp_all
  have cc: "map_of (node_config (entry_point g)) ''scraper_config'' =
      Some (snd (deepcopy h cfg))"
    using iterator_scraper_config [OF assms(5)] c by simp
  show ?thesis
    using cc snapshot_unfold [OF assms(1,2) m refs_bounded [OF assms(2)]] by simp
qed

text \<open>
  Claim C1.  For a workflow constructed as above, any mutation that the caller performs
  after construction through the references it held before (its configuration object and
  everything reachable from it, objects it creates included) leaves the configuration
  bound to the iterator stage unchanged at every depth.
\<close>

theorem snapshot_independent_of_caller:
  assumes "wf_heap h" and "wf_val (length h) cfg"
    and "base_init_frame super_init"
    and "init super_init h p src cfg sch = Inr (h3, self)"
    and "create_graph self = Inr g"
    and "\<forall>a\<in>K. a < length h"
    and "mutate K h3 h4"
  shows "\<exists>cc. map_of (node_config (entry_point g)) ''scraper_config'' = Some cc \<and>
           (\<forall>n. unfold n h4 cc = unfold n h3 cc)"
proof -
  let ?h2 = "fst (snapshots h blank cfg sch)"
  let ?K = "refs cfg \<union> K"
  from init_Inr [OF assms(3,4)] have
    c: "copy_config self = Some (snd (deepcopy h cfg))" and
    m: "mutate (refs cfg) ?h2 h3"
    by simp_all
  have K: "\<forall>a\<in>?K. a < length h"
    using refs_bounded [OF assms(2)] assms(6) by blast
  have m3: "mutate ?K ?h2 h3"
    by (rule mutate_mono [OF m]) simp
  have "mutate ?K h3 h4"
    by (rule mutate_mono [OF assms(7)]) simp
  from mutate_trans [OF m3 this mutate_length [OF m]] have m4: "mutate ?K ?h2 h4" .
  have cc: "map_of (node_config (entry_point g)) ''scraper_config'' =
      Some (snd (deepcopy h cfg))"
    using iterator_scraper_config [OF assms(5)] c by simp
  show ?thesis
    using cc snapshot_unfold [OF assms(1,2) m3 K] snapshot_unfold [OF assms(1,2) m4 K]
    by simp
qed

lemma demo_wf: "wf_heap demo_heap" "wf_val (length demo_heap) (VRef 0)"
  by (simp_all add: wf_heap_def demo_heap_def)

lemma demo_base_init_frame: "base_init_frame demo_base_init"
  unfolding base_init_frame_def
proof (intro allI impI)
  fix h self p cfg src sch h' self'
  assume r: "demo_base_init h self p cfg src sch = Inr (h', self')"
  define hn where "hn =
     (case cfg of
        VRef a \<Rightarrow>
          (if a < length h then
             (case h ! a of
                ODict kvs \<Rightarrow> h[a := ODict (kvs @ [(''verbose'', VBool False)])]
              | OList vs \<Rightarrow> h)
           else h)
      | _ \<Rightarrow> h)"
  from r have 1: "copy_config self' = copy_config self" and 2: "h' = hn"
    by (auto simp: demo_base_init_def hn_def Let_def split: sum.splits)
  have "mutate (refs cfg) h hn"
  proof (cases cfg)
    case (VRef a)
    show ?thesis
    proof (cases "a < length h")
      case True
      note a = this
      show ?thesis
      proof (cases "h ! a")
        case (ODict kvs)
        have ra: "a \<in> reach h {a}" by (rule reach_known) simp
        then have own: "a \<in> reach h {a} \<or> length h \<le> a" by simp
        have "\<forall>b. VRef b \<in> set (children (ODict (kvs @ [(''verbose'', VBool False)]))) \<longrightarrow>
            b \<in> reach h {a} \<or> length h \<le> b"
          using reach_child [OF ra a] ODict by auto
        from mutate_store [OF mutate_none a own this] show ?thesis
          by (simp add: hn_def VRef a ODict)
      next
        case (OList vs)
        then show ?thesis by (simp add: hn_def VRef a mutate_none)
      qed
    next
      case False
      then show ?thesis by (simp add: hn_def VRef mutate_none)
    qed
  qed (simp_all add: hn_def mutate_none)
  with 1 2 show "copy_config self' = copy_config self \<and> mutate (refs cfg) h h'" by simp
qed

lemma demo_init_result:
  "init demo_base_init demo_heap demo_prompt (VRef 2) (VRef 0) (VRef 3) =
     Inr (demo_store, demo_workflow)"
  by (simp add: demo_defs)

lemma caller_mutates: "\<forall>a\<in>{0::nat}. a < length demo_heap" "mutate {0} demo_store mutated_store"
proof -
  show "\<forall>a\<in>{0::nat}. a < length demo_heap" by (simp add: demo_heap_def)
  have h3: "length demo_store = 16"
    "demo_store ! 0 = ODict [(''llm'', VRef 1), (''verbose'', VBool False)]"
    by (simp_all add: demo_defs)
  have r0: "0 \<in> reach demo_store {0}"
    by (rule reach_known) simp
  have r1: "1 \<in> reach demo_store {0}"
    by (rule reach_child [OF r0]) (simp_all add: h3)
  from r1 have own: "1 \<in> reach demo_store {0} \<or> length demo_store \<le> 1" by simp
  show "mutate {0} demo_store mutated_store"
    unfolding mutated_store_def
    by (rule mutate_store [OF mutate_none _ own]) (simp_all add: h3)
qed

theorem snapshot_is_config_as_passed_witness:
  "\<exists>g cc. create_graph demo_workflow = Inr g \<and>
     map_of (node_config (entry_point g)) ''scraper_config'' = Some cc \<and>
     (\<forall>n. unfold n demo_store cc = unfold n demo_heap (VRef 0)) \<and>
     unfold 1 demo_store (VRef 0) \<noteq> unfold 1 demo_heap (VRef 0)"
proof -
  obtain g where g: "create_graph demo_workflow = Inr g"
    using demo_graph_built by blast
  have ne: "unfold 1 demo_store (VRef 0) \<noteq> unfold 1 demo_heap (VRef 0)"
    by (simp add: demo_defs)
  from snapshot_is_config_as_passed [OF demo_wf demo_base_init_frame demo_init_result g] g ne
  show ?thesis by blast
qed

theorem snapshot_independent_of_caller_witness:
  "\<exists>g cc. create_graph demo_workflow = Inr g \<and>
     map_of (node_config (entry_point g)) ''scraper_config'' = Some cc \<and>
     (\<forall>n. unfold n mutated_store cc = unfold n demo_store cc) \<and>
     unfold 2 mutated_store (VRef 0) \<noteq> unfold 2 demo_store (VRef 0)"
proof -
  obtain g where g: "create_graph demo_workflow = Inr g"
    using demo_graph_built by blast
  have ne: "unfold 2 mutated_store (VRef 0) \<noteq> unfold 2 demo_store (VRef 0)"
    by (simp add: mutated_store_def demo_defs numeral_2_eq_2)
  from snapshot_independent_of_caller [OF demo_wf demo_base_init_frame demo_init_result g
      caller_mutates] g ne
  show ?thesis by blast
qed

section \<open>The empty list of URLs\<close>

lemma input_keys_iterator: "input_keys ''user_prompt & urls'' = [''user_prompt'', ''urls'']"
  by (simp add: input_keys_def strip_def)

lemma input_keys_merge: "input_keys ''user_prompt & scripts'' = [''user_prompt'', ''scripts'']"
  by (simp add: input_keys_def strip_def)

lemma exec_iterator_empty:
  assumes "a < length h" and "h ! a = OList []"
  shows "exec_node policy sub llm h (graph_iterator_node cc cs)
           [(''user_prompt'', VStr p), (''urls'', VRef a)] =
         Inr (h @ [OList []],
              [(''user_prompt'', VStr p), (''urls'', VRef a), (''scripts'', VRef (length h))],
              [(''node_name'', VStr ''GraphIterator'')])"
  using assms
  by (simp add: exec_node_def graph_iterator_node_def read_strs_def node_name_def
      input_keys_iterator)

lemma exec_merge_empty:
  assumes "b < length h" and "h ! b = OList []"
  shows "exec_node policy sub llm h (merge_scripts_node lm sc)
           [(''user_prompt'', VStr p), (''urls'', VRef a), (''scripts'', VRef b)] =
         Inr (h,
              [(''user_prompt'', VStr p), (''urls'', VRef a), (''scripts'', VRef b),
               (''merged_script'', VStr sentinel)],
              [(''node_name'', VStr ''MergeGeneratedScripts'')])"
  using assms
  by (simp add: exec_node_def merge_scripts_node_def read_strs_def node_name_def
      merge_stage_def input_keys_merge)

text \<open>
  Claim C3.  When the workflow holds an empty list of URLs, \<open>run\<close> on the engine and the
  stages of the specification returns the sentinel string: the iterator stage stores an
  empty list of artifacts, the merge stage stores the sentinel for it, and \<open>run\<close> reads
  it.  It does not raise, and the sentinel is not the empty text.
\<close>

theorem empty_url_list_gives_sentinel:
  assumes "create_graph self = Inr g" and "graph self = Some g"
    and "prompt self = Some (VStr p)" and "source self = Some (VRef a)"
    and "a < length h" and "h ! a = OList []"
  shows "\<exists>h' self'. run (spec_engine policy sub llm) h self = Inr (h', self', VStr sentinel) \<and>
           VStr sentinel \<noteq> VStr []"
proof -
  from create_graph_Inr [OF assms(1)] obtain cc cs lm sc where
    g: "g = \<lparr> nodes = [graph_iterator_node cc cs, merge_scripts_node lm sc],
             edges = [(graph_iterator_node cc cs, merge_scripts_node lm sc)],
             entry_point = graph_iterator_node cc cs,
             graph_name = ''ScriptCreatorMultiGraph'' \<rparr>"
    by blast
  have neq: "merge_scripts_node lm sc \<noteq> graph_iterator_node cc cs"
    by (simp add: graph_iterator_node_def merge_scripts_node_def)
  have m: "exec_node policy sub llm (h @ [OList []]) (merge_scripts_node lm sc)
           [(''user_prompt'', VStr p), (''urls'', VRef a), (''scripts'', VRef (length h))] =
         Inr (h @ [OList []],
              [(''user_prompt'', VStr p), (''urls'', VRef a), (''scripts'', VRef (length h)),
               (''merged_script'', VStr sentinel)],
              [(''node_name'', VStr ''MergeGeneratedScripts'')])"
    by (rule exec_merge_empty) simp_all
  have e: "spec_engine policy sub llm h g (run_inputs (VStr p) (VRef a)) =
      Inr (h @ [OList []],
           [(''user_prompt'', VStr p), (''urls'', VRef a), (''scripts'', VRef (length h)),
            (''merged_script'', VStr sentinel)],
           [[(''node_name'', VStr ''GraphIterator'')],
            [(''node_name'', VStr ''MergeGeneratedScripts'')]])"
    using neq
    by (simp add: spec_engine_def g run_inputs_def numeral_2_eq_2
        exec_iterator_empty [OF assms(5,6)] m)
  show ?thesis
    using assms(2,3,4) e by (simp add: run_def getattr_def dict_get_def sentinel_def)
qed

lemmas empty_defs =
  empty_init_def empty_heap_def empty_store_def empty_workflow_def
  init_def snapshots_def safe_deepcopy_def demo_heap_def
  demo_base_init_def blank_def create_graph_def getattr_def demo_prompt_def
  graph_iterator_node_def merge_scripts_node_def ScriptCreatorGraph_def

lemma empty_workflow_attrs:
  "\<exists>g. create_graph empty_workflow = Inr g \<and> graph empty_workflow = Some g"
  "prompt empty_workflow = Some (VStr ''What is Chioggia famous for?'')"
  "source empty_workflow = Some (VRef 2)"
  "2 < length empty_store" "empty_store ! 2 = OList []"
  by (simp_all add: empty_defs)

theorem empty_url_list_gives_sentinel_witness:
  "\<exists>h' self'. run (spec_engine SkipAndContinue demo_sub demo_llm) empty_store empty_workflow =
      Inr (h', self', VStr ''Failed to generate the script.'')"
proof -
  obtain g where g: "create_graph empty_workflow = Inr g" "graph empty_workflow = Some g"
    using empty_workflow_attrs(1) by blast
  from empty_url_list_gives_sentinel [OF g empty_workflow_attrs(2-5)]
  show ?thesis by (simp add: sentinel_def)
qed

text \<open>The scenario with two URLs: the merged artifact holds both scripts, in the order of the URLs.\<close>

lemma two_urls_merged:
  "\<exists>h' self'. run (spec_engine SkipAndContinue demo_sub demo_llm) demo_store demo_workflow =
      Inr (h', self',
           VStr ''# scraper for https://a.example# scraper for https://b.example'')"
  by (simp add: demo_defs run_defs spec_engine_def numeral_2_eq_2 exec_node_def
      input_keys_iterator input_keys_merge read_strs_def node_name_def merge_stage_def
      demo_sub_def demo_llm_def)

end
